theory Spec2Isabelle
  imports Main "HOL-Library.AList"
begin

section \<open>Data model\<close>

text \<open>
  The solver of \<^verbatim>\<open>script.py\<close> works on Python values. A clause is a tuple of
  integers, so it keeps the order and the multiplicity of its literals. A formula is a
  Python set of such tuples; it is modelled as a duplicate-free list, a new element being
  appended at the end, and a loop over the set visits the list from left to right (Python
  leaves the order open; results that depend on it are stated for a given arrangement).
  The model is a Python dict from variable ids to booleans; it is an association list in
  insertion order, which is the order a dict keeps.
\<close>

type_synonym clause = "int list"
type_synonym clauses = "clause list"
type_synonym symbols = "int list"
type_synonym model = "(int \<times> bool) list"

text \<open>
  Exceptions: \<^verbatim>\<open>ValueError\<close> carries its message (the loader raises it with
  the message \<^verbatim>\<open>Invalid clause\<close>; \<^verbatim>\<open>int()\<close> and tuple unpacking raise
  it with messages of their own), \<^verbatim>\<open>KeyError\<close> carries the missing key.
\<close>

datatype error = ValueError string | KeyError int

text \<open>\<^verbatim>\<open>s.add(x)\<close> on a set.\<close>

definition set_add :: "'a \<Rightarrow> 'a list \<Rightarrow> 'a list" where
  "set_add x xs = (if x \<in> set xs then xs else xs @ [x])"

section \<open>Python's string operations\<close>

text \<open>
  A line is the list of its code points, all below 256. \<^verbatim>\<open>str.isspace\<close> holds
  there for the code points 9 to 13, 28 to 32, 133 and 160.
\<close>

definition isspace :: "char \<Rightarrow> bool" where
  "isspace c =
     (let n = (of_char c :: nat)
      in (9 \<le> n \<and> n \<le> 13) \<or> (28 \<le> n \<and> n \<le> 32) \<or> n = 133 \<or> n = 160)"

definition strip :: "string \<Rightarrow> string" where
  "strip s = rev (dropWhile isspace (rev (dropWhile isspace s)))"

text \<open>\<^verbatim>\<open>s.endswith("0")\<close> and \<^verbatim>\<open>s.rstrip("0")\<close>.\<close>

definition endswith0 :: "string \<Rightarrow> bool" where
  "endswith0 s = (s \<noteq> [] \<and> last s = CHR ''0'')"

definition rstrip0 :: "string \<Rightarrow> string" where
  "rstrip0 s = rev (dropWhile (\<lambda>c. c = CHR ''0'') (rev s))"

text \<open>
  \<^verbatim>\<open>s.split()\<close>: the maximal runs of non-space characters; \<open>tok\<close> is the token
  being read.
\<close>

fun split_from :: "string \<Rightarrow> string \<Rightarrow> string list" where
  "split_from tok [] = (if tok = [] then [] else [tok])"
| "split_from tok (c # cs) =
     (if isspace c then (if tok = [] then split_from [] cs else tok # split_from [] cs)
      else split_from (tok @ [c]) cs)"

definition split :: "string \<Rightarrow> string list" where
  "split s = split_from [] s"

text \<open>
  \<^verbatim>\<open>int(tok)\<close> on a token without spaces: an optional sign, then decimal digits,
  where single underscores may stand between two digits. Anything else raises
  \<^verbatim>\<open>ValueError\<close>. (The interpreter's limit on the number of digits of one token is
  not modelled.)
\<close>

definition isdigit :: "char \<Rightarrow> bool" where
  "isdigit c = (let n = (of_char c :: nat) in 48 \<le> n \<and> n \<le> 57)"

definition digit_val :: "char \<Rightarrow> int" where
  "digit_val c = int (of_char c - (48 :: nat))"

fun digits_from :: "int \<Rightarrow> string \<Rightarrow> int option" where
  "digits_from acc [] = Some acc"
| "digits_from acc [c] = (if isdigit c then Some (10 * acc + digit_val c) else None)"
| "digits_from acc (c # d # ds) =
     (if isdigit c then digits_from (10 * acc + digit_val c) (d # ds)
      else if c = CHR ''_'' \<and> isdigit d then digits_from (10 * acc + digit_val d) ds
      else None)"

definition unsigned_int :: "string \<Rightarrow> int option" where
  "unsigned_int s =
     (case s of [] \<Rightarrow> None
      | c # cs \<Rightarrow> if isdigit c then digits_from (digit_val c) cs else None)"

definition py_int :: "string \<Rightarrow> error + int" where
  "py_int tok =
     (case (case tok of [] \<Rightarrow> None
            | c # cs \<Rightarrow>
                if c = CHR ''-'' then map_option uminus (unsigned_int cs)
                else if c = CHR ''+'' then unsigned_int cs
                else unsigned_int tok) of
        None \<Rightarrow> Inl (ValueError ''invalid literal for int()'')
      | Some n \<Rightarrow> Inr n)"

text \<open>\<^verbatim>\<open>tuple(map(int, toks))\<close>: the first token that is no integer raises.\<close>

fun map_int :: "string list \<Rightarrow> error + int list" where
  "map_int [] = Inr []"
| "map_int (t # ts) =
     (case py_int t of
        Inl e \<Rightarrow> Inl e
      | Inr n \<Rightarrow> (case map_int ts of Inl e \<Rightarrow> Inl e | Inr ns \<Rightarrow> Inr (n # ns)))"

section \<open>The loader: \<^verbatim>\<open>parse_file\<close>\<close>

text \<open>
  Lines 29 to 31 of \<^verbatim>\<open>read_clause\<close>: the buffer of a finished clause becomes a
  tuple of integers, which is checked against \<open>nb_lit\<close>.
\<close>

definition clause_of_buffer :: "int \<Rightarrow> string \<Rightarrow> error + clause" where
  "clause_of_buffer nb_lit buffer =
     (case map_int (split (rstrip0 buffer)) of
        Inl e \<Rightarrow> Inl e
      | Inr current_clause \<Rightarrow>
          if list_ex (\<lambda>literal. \<bar>literal\<bar> > nb_lit) current_clause
          then Inl (ValueError ''Invalid clause'')
          else Inr current_clause)"

text \<open>
  The generator \<^verbatim>\<open>read_clause\<close> together with the loop of \<^verbatim>\<open>parse_file\<close>
  that consumes it (lines 24 to 35 and 45 to 48). The generator runs only as far as the
  loop asks: after the \<^verbatim>\<open>break\<close> no further line is read. \<open>lines\<close> are the
  lines of the file after the header, \<open>buffer\<close> the text of the clause being read,
  \<open>cnf\<close> the set collected so far.
\<close>

fun read_clause :: "int \<Rightarrow> int \<Rightarrow> string \<Rightarrow> string list \<Rightarrow> clauses \<Rightarrow> error + clauses" where
  "read_clause nb_clauses nb_lit buffer [] cnf = Inr cnf"
| "read_clause nb_clauses nb_lit buffer (line # rest) cnf =
     (if strip line = [] then read_clause nb_clauses nb_lit buffer rest cnf
      else if endswith0 (strip line) then
        (case clause_of_buffer nb_lit (buffer @ strip line) of
           Inl e \<Rightarrow> Inl e
         | Inr current_clause \<Rightarrow>
             if int (length (set_add current_clause cnf)) \<ge> nb_clauses
             then Inr (set_add current_clause cnf)
             else read_clause nb_clauses nb_lit [] rest (set_add current_clause cnf))
      else read_clause nb_clauses nb_lit (buffer @ strip line @ '' '') rest cnf)"

text \<open>
  The header, line 41: \<^verbatim>\<open>nb_clauses, nb_lit = map(int, f.readline().strip().split())\<close>.
  Unpacking asks the map for a third value before it complains of too many, so a third
  token is converted too.
\<close>

definition read_header :: "string \<Rightarrow> error + int \<times> int" where
  "read_header line =
     (case split (strip line) of
        [] \<Rightarrow> Inl (ValueError ''not enough values to unpack'')
      | t1 # ts1 \<Rightarrow>
          (case py_int t1 of
             Inl e \<Rightarrow> Inl e
           | Inr n1 \<Rightarrow>
               (case ts1 of
                  [] \<Rightarrow> Inl (ValueError ''not enough values to unpack'')
                | t2 # ts2 \<Rightarrow>
                    (case py_int t2 of
                       Inl e \<Rightarrow> Inl e
                     | Inr n2 \<Rightarrow>
                         (case ts2 of
                            [] \<Rightarrow> Inr (n1, n2)
                          | t3 # ts3 \<Rightarrow>
                              (case py_int t3 of
                                 Inl e \<Rightarrow> Inl e
                               | Inr n3 \<Rightarrow> Inl (ValueError ''too many values to unpack'')))))))"

text \<open>
  \<^verbatim>\<open>parse_file\<close> on the lines of the file (\<^verbatim>\<open>readline\<close> on an empty file gives
  the empty string). The result is the returned triple \<open>(cnf, nb_clauses, nb_lit)\<close>
  and whether the truncation warning of lines 50 to 53 was printed.
\<close>

definition parse_file :: "string list \<Rightarrow> error + (clauses \<times> int \<times> int) \<times> bool" where
  "parse_file file_lines =
     (case read_header (case file_lines of [] \<Rightarrow> [] | l # ls \<Rightarrow> l) of
        Inl e \<Rightarrow> Inl e
      | Inr (nb_clauses, nb_lit) \<Rightarrow>
          (case read_clause nb_clauses nb_lit [] (tl file_lines) [] of
             Inl e \<Rightarrow> Inl e
           | Inr cnf \<Rightarrow> Inr ((cnf, nb_clauses, nb_lit), int (length cnf) < nb_clauses)))"

section \<open>Pure-literal elimination: \<^verbatim>\<open>pure_literal\<close>\<close>

text \<open>\<^verbatim>\<open>not symbols\<close>: \<^verbatim>\<open>None\<close> and the empty set are both falsy.\<close>

definition not_symbols :: "symbols option \<Rightarrow> bool" where
  "not_symbols symbols = (case symbols of None \<Rightarrow> True | Some syms \<Rightarrow> syms = [])"

text \<open>Lines 61 and 62: \<^verbatim>\<open>set() if not symbols else symbols.copy()\<close>.\<close>

definition symbols_copy :: "symbols option \<Rightarrow> symbols" where
  "symbols_copy symbols =
     (if not_symbols symbols then [] else (case symbols of None \<Rightarrow> [] | Some syms \<Rightarrow> syms))"

text \<open>
  The two nested loops of lines 64 to 73. The state is the dict \<open>polarity\<close> and the
  sets \<open>new_symb\<close> and \<open>pure_literals\<close>; \<open>derive\<close> is the value of
  \<^verbatim>\<open>not symbols\<close>.
\<close>

fun scan_literals ::
  "bool \<Rightarrow> clause \<Rightarrow> model \<times> symbols \<times> symbols \<Rightarrow> model \<times> symbols \<times> symbols" where
  "scan_literals derive [] st = st"
| "scan_literals derive (lit # lits) (polarity, new_symb, pure_literals) =
     (if map_of polarity \<bar>lit\<bar> = None then
        scan_literals derive lits
          (AList.update \<bar>lit\<bar> (lit > 0) polarity,
           if derive then set_add \<bar>lit\<bar> new_symb else new_symb,
           if derive then set_add \<bar>lit\<bar> pure_literals else pure_literals)
      else if map_of polarity \<bar>lit\<bar> \<noteq> Some (lit > 0) then
        scan_literals derive lits (polarity, new_symb, removeAll \<bar>lit\<bar> pure_literals)
      else scan_literals derive lits (polarity, new_symb, pure_literals))"

fun scan_clauses ::
  "bool \<Rightarrow> clauses \<Rightarrow> model \<times> symbols \<times> symbols \<Rightarrow> model \<times> symbols \<times> symbols" where
  "scan_clauses derive [] st = st"
| "scan_clauses derive (clause # rest) st =
     scan_clauses derive rest (scan_literals derive clause st)"

text \<open>
  Lines 77 and 78: \<^verbatim>\<open>model[lit] = polarity[lit]\<close> for every element of
  \<open>pure_literals\<close>; a key that \<open>polarity\<close> lacks raises \<^verbatim>\<open>KeyError\<close>.
\<close>

fun assign_pure :: "symbols \<Rightarrow> model \<Rightarrow> model \<Rightarrow> error + model" where
  "assign_pure [] polarity model = Inr model"
| "assign_pure (lit # lits) polarity model =
     (case map_of polarity lit of
        None \<Rightarrow> Inl (KeyError lit)
      | Some b \<Rightarrow> assign_pure lits polarity (AList.update lit b model))"

text \<open>
  \<^verbatim>\<open>pure_literal\<close>. The result is the returned pair (\<open>None\<close> for
  \<^verbatim>\<open>(None, None)\<close>) and the model after the call, which the source mutates in
  place.
\<close>

definition pure_literal ::
  "clauses \<Rightarrow> symbols option \<Rightarrow> model \<Rightarrow> error + (clauses \<times> symbols) option \<times> model" where
  "pure_literal cnf symbols model =
     (if cnf = [] then Inr (None, model)
      else
        (case scan_clauses (not_symbols symbols) cnf
                ([], symbols_copy symbols, symbols_copy symbols) of
           (polarity, new_symb, pure_literals) \<Rightarrow>
             (case assign_pure pure_literals polarity model of
                Inl e \<Rightarrow> Inl e
              | Inr model' \<Rightarrow>
                  Inr (Some
                    (filter (\<lambda>clause. \<not> list_ex (\<lambda>lit. \<bar>lit\<bar> \<in> set pure_literals) clause) cnf,
                     filter (\<lambda>v. v \<notin> set pure_literals) new_symb), model'))))"

section \<open>Unit propagation: \<^verbatim>\<open>remove_unit_clauses\<close>\<close>

text \<open>
  The inner loop of lines 88 to 94 over one clause: \<open>None\<close> when it leaves by
  \<^verbatim>\<open>break\<close>, otherwise the final \<open>unit_literal\<close>.
\<close>

fun scan_unit :: "model \<Rightarrow> int option \<Rightarrow> clause \<Rightarrow> int option option" where
  "scan_unit model unit_literal [] = Some unit_literal"
| "scan_unit model unit_literal (literal # rest) =
     (if map_of model \<bar>literal\<bar> = None then
        (if unit_literal \<noteq> None then None else scan_unit model (Some literal) rest)
      else scan_unit model unit_literal rest)"

text \<open>
  The outer loop over \<^verbatim>\<open>clauses.copy()\<close>. The result is the returned boolean with
  the set and the model after the call (both are mutated in place).
\<close>

fun unit_loop :: "clauses \<Rightarrow> clauses \<Rightarrow> model \<Rightarrow> bool \<times> clauses \<times> model" where
  "unit_loop [] clauses model = (False, clauses, model)"
| "unit_loop (clause # rest) clauses model =
     (case scan_unit model None clause of
        Some (Some unit_literal) \<Rightarrow>
          (True, remove1 clause clauses, AList.update \<bar>unit_literal\<bar> (unit_literal > 0) model)
      | _ \<Rightarrow> unit_loop rest clauses model)"

definition remove_unit_clauses :: "clauses \<Rightarrow> model \<Rightarrow> bool \<times> clauses \<times> model" where
  "remove_unit_clauses clauses model = unit_loop clauses clauses model"

section \<open>The search: \<^verbatim>\<open>DPLL\<close>\<close>

text \<open>
  What \<^verbatim>\<open>DPLL\<close> returns: a pair of a boolean and a model or \<^verbatim>\<open>None\<close>, or
  nothing at all (the loop of line 131 has nothing to run on), which is Python's
  \<^verbatim>\<open>None\<close>.
\<close>

datatype result = Tuple bool "model option" | NoneValue

text \<open>
  The test of lines 111 to 114 on one literal.
\<close>

definition lit_satisfied :: "model \<Rightarrow> int \<Rightarrow> bool" where
  "lit_satisfied model litteral =
     (map_of model litteral = Some True \<or> map_of model (- litteral) = Some False)"

text \<open>
  \<^verbatim>\<open>DPLL\<close>. The set \<open>clauses\<close> and the dict \<open>model\<close> are objects shared
  with the caller and mutated in place, so the function returns, with its result, the
  contents of both objects when it returns: \<open>clauses1\<close> and \<open>model1\<close> after
  \<^verbatim>\<open>remove_unit_clauses\<close>, \<open>model2\<close> after \<^verbatim>\<open>pure_literal\<close> (which builds
  the new sets \<open>clauses2\<close> and \<open>symbols2\<close>), \<open>clauses3\<close> and \<open>model3\<close> after
  the call on the true branch. An exception leaves through every caller. That the
  recursion ends is proved below, once the facts about the two simplifications are there.
\<close>

function DPLL ::
  "clauses \<Rightarrow> symbols option \<Rightarrow> model \<Rightarrow> error + result \<times> clauses \<times> model" where
  "DPLL clauses symbols model =
     (if clauses = [] then Inr (Tuple True None, clauses, model)
      else if model \<noteq> [] \<and> list_all (\<lambda>c. list_ex (lit_satisfied model) c) clauses
      then Inr (Tuple True (Some model), clauses, model)
      else if (case symbols of None \<Rightarrow> False | Some syms \<Rightarrow> length model = length syms)
      then Inr (Tuple False (Some model), clauses, model)
      else
        (case remove_unit_clauses clauses model of
           (True, clauses1, model1) \<Rightarrow> DPLL clauses1 symbols model1
         | (False, clauses1, model1) \<Rightarrow>
             (case pure_literal clauses1 symbols model1 of
                Inl e \<Rightarrow> Inl e
              | Inr (None, model2) \<Rightarrow> Inr (Tuple True (Some model2), clauses1, model2)
              | Inr (Some (clauses2, symbols2), model2) \<Rightarrow>
                  if clauses2 = [] then Inr (Tuple True (Some model2), clauses1, model2)
                  else
                    (case filter (\<lambda>s. map_of model2 s = None) symbols2 of
                       [] \<Rightarrow> Inr (NoneValue, clauses1, model2)
                     | s # _ \<Rightarrow>
                         (case DPLL clauses2 (Some symbols2) (AList.update s True model2) of
                            Inl e \<Rightarrow> Inl e
                          | Inr (Tuple b m, clauses3, model3) \<Rightarrow>
                              Inr (Tuple True (Some model3), clauses1, model3)
                          | Inr (NoneValue, clauses3, model3) \<Rightarrow>
                              (case DPLL clauses3 (Some symbols2)
                                      (AList.update s False model3) of
                                 Inl e \<Rightarrow> Inl e
                               | Inr (r, clauses4, model4) \<Rightarrow>
                                   Inr (r, clauses1, model4)))))))"
  by pat_completeness auto

text \<open>
  The call \<^verbatim>\<open>DPLL(cnf)\<close> of line 149, with \<open>symbols\<close> and \<open>model\<close> left to
  their defaults. The default of \<open>model\<close> is one dict object, made when the function is
  defined; \<open>default_model\<close> is its content when the call is made, and the result comes
  with its content after the call.
\<close>

definition DPLL_default :: "clauses \<Rightarrow> model \<Rightarrow> error + result \<times> model" where
  "DPLL_default cnf default_model =
     (case DPLL cnf None default_model of
        Inl e \<Rightarrow> Inl e
      | Inr (r, clauses', model') \<Rightarrow> Inr (r, model'))"

section \<open>Vocabulary of the properties\<close>

text \<open>
  The literals of variable \<open>v\<close> in a clause set, in the order the loops of
  \<^verbatim>\<open>pure_literal\<close> meet them, and whether they all have one sign (the test the
  source uses for the sign of a literal is \<^verbatim>\<open>lit > 0\<close>).
\<close>

definition occurrences :: "int \<Rightarrow> clauses \<Rightarrow> int list" where
  "occurrences v cnf = filter (\<lambda>lit. \<bar>lit\<bar> = v) (concat cnf)"

definition single_sign :: "int \<Rightarrow> clauses \<Rightarrow> bool" where
  "single_sign v cnf =
     (list_all (\<lambda>lit. lit > 0) (occurrences v cnf) \<or> list_all (\<lambda>lit. \<not> lit > 0) (occurrences v cnf))"

text \<open>
  For the proofs about the loops: two literals of \<open>v\<close> among \<open>lits\<close> differ in
  sign; and the state of the loops after the literals \<open>seen\<close>, where \<open>base\<close> are the
  symbols the call was given (none when it derives them): \<open>polarity\<close> knows exactly
  the variables seen, each with the sign of one of its literals; \<open>pure_literals\<close> are
  the variables of the domain so far that are not mixed; \<open>new_symb\<close> is the domain so
  far.
\<close>

definition mixed :: "int \<Rightarrow> int list \<Rightarrow> bool" where
  "mixed v lits = (\<exists>l1\<in>set lits. \<exists>l2\<in>set lits. \<bar>l1\<bar> = v \<and> \<bar>l2\<bar> = v \<and> (l1 > 0) \<noteq> (l2 > 0))"

definition scan_inv :: "bool \<Rightarrow> int set \<Rightarrow> int list \<Rightarrow> model \<times> symbols \<times> symbols \<Rightarrow> bool" where
  "scan_inv derive base seen st =
     (case st of (polarity, new_symb, pure_literals) \<Rightarrow>
        dom (map_of polarity) = abs ` set seen
        \<and> (\<forall>v b. map_of polarity v = Some b \<longrightarrow> (\<exists>l\<in>set seen. \<bar>l\<bar> = v \<and> (l > 0) = b))
        \<and> set pure_literals = {v \<in> base \<union> (if derive then abs ` set seen else {}). \<not> mixed v seen}
        \<and> set new_symb = base \<union> (if derive then abs ` set seen else {}))"

text \<open>
  What \<^verbatim>\<open>pure_literal\<close> has done when it returns a pair of sets, for a variable
  domain \<open>D\<close>: every variable of \<open>D\<close> with a single sign has the value of its
  literals in the model and is not in the returned symbols; the returned symbols are the
  other variables of \<open>D\<close>; the returned clauses are those without a literal of a
  single-sign variable of \<open>D\<close>; every other entry of the model is as it was.
\<close>

definition pure_literal_post ::
  "int set \<Rightarrow> clauses \<Rightarrow> model \<Rightarrow> (clauses \<times> symbols) option \<times> model \<Rightarrow> bool" where
  "pure_literal_post D cnf model out =
     (\<exists>clauses' symbols' model'. out = (Some (clauses', symbols'), model')
        \<and> (\<forall>v\<in>D. single_sign v cnf \<longrightarrow>
              (\<forall>lit\<in>set (occurrences v cnf). map_of model' v = Some (lit > 0)) \<and> v \<notin> set symbols')
        \<and> set symbols' = {v \<in> D. \<not> single_sign v cnf}
        \<and> set clauses' = {clause \<in> set cnf. \<not> (\<exists>lit\<in>set clause. \<bar>lit\<bar> \<in> D \<and> single_sign \<bar>lit\<bar> cnf)}
        \<and> (\<forall>v. \<not> (v \<in> D \<and> single_sign v cnf) \<longrightarrow> map_of model' v = map_of model v))"


text \<open>
  All orders in which a loop can visit a set of clauses, and what it means that a
  top-level call returns \<open>(True, model)\<close> with a model under which some clause of the
  formula has no literal that the test of lines 111 to 114 accepts.
\<close>

fun interleave :: "'a \<Rightarrow> 'a list \<Rightarrow> 'a list list" where
  "interleave x [] = [[x]]"
| "interleave x (y # ys) = (x # y # ys) # map ((#) y) (interleave x ys)"

fun arrangements :: "'a list \<Rightarrow> 'a list list" where
  "arrangements [] = [[]]"
| "arrangements (x # xs) = concat (map (interleave x) (arrangements xs))"

definition returns_falsified_model :: "clauses \<Rightarrow> bool" where
  "returns_falsified_model cnf =
     (case DPLL cnf None [] of
        Inr (Tuple True (Some m), clauses', model') \<Rightarrow>
          \<not> list_all (\<lambda>c. list_ex (lit_satisfied m) c) cnf
      | _ \<Rightarrow> False)"

text \<open>
  The measure of the search: the variables \<^verbatim>\<open>pure_literal\<close> would take as its
  domain (the symbols, or the variables of the clauses when there are no symbols) that
  the model does not assign yet.
\<close>

definition search_domain :: "clauses \<Rightarrow> symbols option \<Rightarrow> int set" where
  "search_domain c s = (if not_symbols s then abs ` set (concat c) else set (symbols_copy s))"

definition open_vars :: "clauses \<times> symbols option \<times> model \<Rightarrow> nat" where
  "open_vars = (\<lambda>(c, s, m). card (search_domain c s - dom (map_of m)))"

section \<open>The loops of \<^verbatim>\<open>pure_literal\<close>\<close>

lemma set_set_add: "set (set_add x xs) = insert x (set xs)"
  by (auto simp: set_add_def)

lemma single_sign_iff: "single_sign v cnf \<longleftrightarrow> \<not> mixed v (concat cnf)"
  unfolding single_sign_def mixed_def occurrences_def list_all_iff
  by auto

lemma differ_snoc_fresh:
  assumes "k x \<notin> k ` set xs"
  shows "(\<exists>a\<in>set (xs @ [x]). \<exists>b\<in>set (xs @ [x]). k a = v \<and> k b = v \<and> p a \<noteq> p b)
       = (\<exists>a\<in>set xs. \<exists>b\<in>set xs. k a = v \<and> k b = v \<and> p a \<noteq> p b)"
proof -
  from assms have "\<And>a. a \<in> set xs \<Longrightarrow> k a \<noteq> k x" by (metis image_eqI)
  then show ?thesis by (auto; metis)
qed

lemma differ_snoc_same:
  assumes "y \<in> set xs" "k y = k x" "p y = p x"
  shows "(\<exists>a\<in>set (xs @ [x]). \<exists>b\<in>set (xs @ [x]). k a = v \<and> k b = v \<and> p a \<noteq> p b)
       = (\<exists>a\<in>set xs. \<exists>b\<in>set xs. k a = v \<and> k b = v \<and> p a \<noteq> p b)"
  using assms by (auto; metis)

lemma differ_snoc_other:
  assumes "v \<noteq> k x"
  shows "(\<exists>a\<in>set (xs @ [x]). \<exists>b\<in>set (xs @ [x]). k a = v \<and> k b = v \<and> p a \<noteq> p b)
       = (\<exists>a\<in>set xs. \<exists>b\<in>set xs. k a = v \<and> k b = v \<and> p a \<noteq> p b)"
  using assms by auto

lemma mixed_snoc_fresh:
  assumes "\<bar>lit\<bar> \<notin> abs ` set seen"
  shows "mixed v (seen @ [lit]) = mixed v seen"
  unfolding mixed_def by (rule differ_snoc_fresh [of abs lit seen, OF assms])

lemma mixed_snoc_same:
  assumes "l \<in> set seen" "\<bar>l\<bar> = \<bar>lit\<bar>" "(l > 0) = (lit > 0)"
  shows "mixed v (seen @ [lit]) = mixed v seen"
  unfolding mixed_def
  by (rule differ_snoc_same [of l seen abs lit "\<lambda>l. l > 0", OF assms])

lemma mixed_snoc_other:
  assumes "v \<noteq> \<bar>lit\<bar>"
  shows "mixed v (seen @ [lit]) = mixed v seen"
  unfolding mixed_def by (rule differ_snoc_other [of v abs lit, OF assms])

lemma mixed_snoc_differ:
  assumes "l \<in> set seen" "\<bar>l\<bar> = \<bar>lit\<bar>" "(l > 0) \<noteq> (lit > 0)"
  shows "mixed \<bar>lit\<bar> (seen @ [lit])"
proof -
  have "l \<in> set (seen @ [lit])" "lit \<in> set (seen @ [lit])" using assms(1) by simp_all
  with assms(2,3) show ?thesis unfolding mixed_def by blast
qed

lemma not_mixed_fresh:
  assumes "v \<notin> abs ` set seen"
  shows "\<not> mixed v seen"
  using assms unfolding mixed_def by blast

lemma scan_invI:
  assumes "dom (map_of polarity) = abs ` set seen"
    and "\<And>v b. map_of polarity v = Some b \<Longrightarrow> \<exists>l\<in>set seen. \<bar>l\<bar> = v \<and> (l > 0) = b"
    and "set pure_literals = {v \<in> base \<union> (if derive then abs ` set seen else {}). \<not> mixed v seen}"
    and "set new_symb = base \<union> (if derive then abs ` set seen else {})"
  shows "scan_inv derive base seen (polarity, new_symb, pure_literals)"
  using assms unfolding scan_inv_def by simp

lemma scan_invD:
  assumes "scan_inv derive base seen (polarity, new_symb, pure_literals)"
  shows "dom (map_of polarity) = abs ` set seen"
    and "\<And>v b. map_of polarity v = Some b \<Longrightarrow> \<exists>l\<in>set seen. \<bar>l\<bar> = v \<and> (l > 0) = b"
    and "set pure_literals = {v \<in> base \<union> (if derive then abs ` set seen else {}). \<not> mixed v seen}"
    and "set new_symb = base \<union> (if derive then abs ` set seen else {})"
  using assms unfolding scan_inv_def by simp_all

lemma scan_inv_step_new:
  assumes inv: "scan_inv derive base seen (polarity, new_symb, pure_literals)"
    and new: "map_of polarity \<bar>lit\<bar> = None"
  shows "scan_inv derive base (seen @ [lit])
           (AList.update \<bar>lit\<bar> (lit > 0) polarity,
            if derive then set_add \<bar>lit\<bar> new_symb else new_symb,
            if derive then set_add \<bar>lit\<bar> pure_literals else pure_literals)"
proof (rule scan_invI)
  note d = scan_invD [OF inv]
  from d(1) new have fresh: "\<bar>lit\<bar> \<notin> abs ` set seen"
    by (metis domIff)
  have m: "\<And>v. mixed v (seen @ [lit]) = mixed v seen"
    by (rule mixed_snoc_fresh [OF fresh])
  have nm: "\<not> mixed \<bar>lit\<bar> seen"
    by (rule not_mixed_fresh [OF fresh])
  have img: "abs ` set (seen @ [lit]) = insert \<bar>lit\<bar> (abs ` set seen)" by simp
  show "dom (map_of (AList.update \<bar>lit\<bar> (lit > 0) polarity)) = abs ` set (seen @ [lit])"
    unfolding img by (simp add: update_conv' d(1))
  show "\<exists>l\<in>set (seen @ [lit]). \<bar>l\<bar> = v \<and> (l > 0) = b"
    if "map_of (AList.update \<bar>lit\<bar> (lit > 0) polarity) v = Some b" for v b
  proof (cases "v = \<bar>lit\<bar>")
    case True
    with that have "b = (lit > 0)" by (simp add: update_conv')
    with True show ?thesis by auto
  next
    case False
    with that have "map_of polarity v = Some b" by (simp add: update_conv')
    from d(2) [OF this] show ?thesis by auto
  qed
  show "set (if derive then set_add \<bar>lit\<bar> pure_literals else pure_literals) =
        {v \<in> base \<union> (if derive then abs ` set (seen @ [lit]) else {}). \<not> mixed v (seen @ [lit])}"
    unfolding m img using nm d(3) by (auto simp: set_set_add)
  show "set (if derive then set_add \<bar>lit\<bar> new_symb else new_symb) =
        base \<union> (if derive then abs ` set (seen @ [lit]) else {})"
    unfolding img using d(4) by (auto simp: set_set_add)
qed

lemma scan_inv_step_differ:
  assumes inv: "scan_inv derive base seen (polarity, new_symb, pure_literals)"
    and old: "map_of polarity \<bar>lit\<bar> \<noteq> None"
    and diff: "map_of polarity \<bar>lit\<bar> \<noteq> Some (lit > 0)"
  shows "scan_inv derive base (seen @ [lit])
           (polarity, new_symb, removeAll \<bar>lit\<bar> pure_literals)"
proof (rule scan_invI)
  note d = scan_invD [OF inv]
  from old obtain b where b: "map_of polarity \<bar>lit\<bar> = Some b" by auto
  from d(2) [OF b] obtain l where l: "l \<in> set seen" "\<bar>l\<bar> = \<bar>lit\<bar>" "(l > 0) = b"
    by blast
  with b diff have "(l > 0) \<noteq> (lit > 0)" by auto
  with l have mx: "mixed \<bar>lit\<bar> (seen @ [lit])" by (intro mixed_snoc_differ [of l]) auto
  have other: "\<And>v. v \<noteq> \<bar>lit\<bar> \<Longrightarrow> mixed v (seen @ [lit]) = mixed v seen"
    by (rule mixed_snoc_other)
  from l have seen: "\<bar>lit\<bar> \<in> abs ` set seen" by (metis imageI)
  have img: "abs ` set (seen @ [lit]) = abs ` set seen" using seen by auto
  show "dom (map_of polarity) = abs ` set (seen @ [lit])"
    unfolding img by (rule d(1))
  show "\<exists>l\<in>set (seen @ [lit]). \<bar>l\<bar> = v \<and> (l > 0) = b"
    if "map_of polarity v = Some b" for v b
    using d(2) [OF that] by auto
  show "set (removeAll \<bar>lit\<bar> pure_literals) =
        {v \<in> base \<union> (if derive then abs ` set (seen @ [lit]) else {}). \<not> mixed v (seen @ [lit])}"
    unfolding img
  proof (intro set_eqI iffI)
    fix v assume "v \<in> set (removeAll \<bar>lit\<bar> pure_literals)"
    then have v: "v \<in> set pure_literals" "v \<noteq> \<bar>lit\<bar>" by auto
    with d(3) other [OF v(2)]
    show "v \<in> {v \<in> base \<union> (if derive then abs ` set seen else {}). \<not> mixed v (seen @ [lit])}"
      by simp
  next
    fix v assume a: "v \<in> {v \<in> base \<union> (if derive then abs ` set seen else {}). \<not> mixed v (seen @ [lit])}"
    with mx have ne: "v \<noteq> \<bar>lit\<bar>" by auto
    from a other [OF ne] d(3) have "v \<in> set pure_literals" by simp
    with ne show "v \<in> set (removeAll \<bar>lit\<bar> pure_literals)" by simp
  qed
  show "set new_symb = base \<union> (if derive then abs ` set (seen @ [lit]) else {})"
    unfolding img by (rule d(4))
qed

lemma scan_inv_step_same:
  assumes inv: "scan_inv derive base seen (polarity, new_symb, pure_literals)"
    and same: "map_of polarity \<bar>lit\<bar> = Some (lit > 0)"
  shows "scan_inv derive base (seen @ [lit]) (polarity, new_symb, pure_literals)"
proof (rule scan_invI)
  note d = scan_invD [OF inv]
  from d(2) [OF same] obtain l where l: "l \<in> set seen" "\<bar>l\<bar> = \<bar>lit\<bar>" "(l > 0) = (lit > 0)"
    by blast
  have m: "\<And>v. mixed v (seen @ [lit]) = mixed v seen"
    by (rule mixed_snoc_same [OF l])
  from l have seen: "\<bar>lit\<bar> \<in> abs ` set seen" by (metis imageI)
  have img: "abs ` set (seen @ [lit]) = abs ` set seen" using seen by auto
  show "dom (map_of polarity) = abs ` set (seen @ [lit])"
    unfolding img by (rule d(1))
  show "\<exists>l\<in>set (seen @ [lit]). \<bar>l\<bar> = v \<and> (l > 0) = b"
    if "map_of polarity v = Some b" for v b
    using d(2) [OF that] by auto
  show "set pure_literals =
        {v \<in> base \<union> (if derive then abs ` set (seen @ [lit]) else {}). \<not> mixed v (seen @ [lit])}"
    unfolding img m by (rule d(3))
  show "set new_symb = base \<union> (if derive then abs ` set (seen @ [lit]) else {})"
    unfolding img by (rule d(4))
qed

lemma scan_literals_inv:
  "scan_inv derive base seen st \<Longrightarrow>
   scan_inv derive base (seen @ lits) (scan_literals derive lits st)"
proof (induction lits arbitrary: seen st)
  case Nil
  then show ?case by simp
next
  case (Cons lit lits)
  obtain polarity new_symb pure_literals where st: "st = (polarity, new_symb, pure_literals)"
    by (cases st) auto
  have app: "seen @ lit # lits = (seen @ [lit]) @ lits" by simp
  show ?case
  proof (cases "map_of polarity \<bar>lit\<bar> = None")
    case True
    from Cons.IH [OF scan_inv_step_new [OF Cons.prems [unfolded st] True]]
    show ?thesis unfolding st app using True by simp
  next
    case old: False
    show ?thesis
    proof (cases "map_of polarity \<bar>lit\<bar> = Some (lit > 0)")
      case True
      from Cons.IH [OF scan_inv_step_same [OF Cons.prems [unfolded st] True]]
      show ?thesis unfolding st app using True by simp
    next
      case False
      from old obtain b where b: "map_of polarity \<bar>lit\<bar> = Some b" by auto
      with False have ne: "b \<noteq> (lit > 0)" by simp
      from Cons.IH [OF scan_inv_step_differ [OF Cons.prems [unfolded st] old False]]
      show ?thesis unfolding st app using b ne by simp
    qed
  qed
qed

lemma scan_clauses_inv:
  "scan_inv derive base seen st \<Longrightarrow>
   scan_inv derive base (seen @ concat cnf) (scan_clauses derive cnf st)"
proof (induction cnf arbitrary: seen st)
  case Nil
  then show ?case by simp
next
  case (Cons clause rest)
  from Cons.IH [OF scan_literals_inv [OF Cons.prems, of clause]]
  show ?case by simp
qed

lemma scan_inv_init: "scan_inv derive (set syms) [] ([], syms, syms)"
  unfolding scan_inv_def mixed_def by auto

lemma assign_pure_Inr:
  "assign_pure vs polarity model = Inr model' \<Longrightarrow>
   set vs \<subseteq> dom (map_of polarity) \<and>
   (\<forall>v. map_of model' v = (if v \<in> set vs then map_of polarity v else map_of model v))"
proof (induction vs arbitrary: model)
  case Nil
  then show ?case by simp
next
  case (Cons x xs)
  from Cons.prems obtain b where b: "map_of polarity x = Some b"
    and rest: "assign_pure xs polarity (AList.update x b model) = Inr model'"
    by (auto split: option.splits)
  from Cons.IH [OF rest] b show ?case
    by (auto simp: update_conv')
qed

lemma assign_pure_total:
  "set vs \<subseteq> dom (map_of polarity) \<Longrightarrow> \<exists>model'. assign_pure vs polarity model = Inr model'"
  by (induction vs arbitrary: model) auto

lemma occurrences_empty_iff: "occurrences v cnf = [] \<longleftrightarrow> v \<notin> abs ` set (concat cnf)"
  unfolding occurrences_def by (auto simp: filter_empty_conv)

lemma pure_literal_scan:
  assumes "scan_clauses (not_symbols symbols) cnf ([], symbols_copy symbols, symbols_copy symbols)
             = (polarity, new_symb, pure_literals)"
  shows "scan_inv (not_symbols symbols) (set (symbols_copy symbols)) (concat cnf)
           (polarity, new_symb, pure_literals)"
  using scan_clauses_inv [OF scan_inv_init, of "not_symbols symbols" "symbols_copy symbols" cnf]
  unfolding assms by simp

lemma pure_literal_char:
  assumes ne: "cnf \<noteq> []"
    and res: "pure_literal cnf symbols model = Inr out"
  shows "pure_literal_post
           (set (symbols_copy symbols) \<union> (if not_symbols symbols then abs ` set (concat cnf) else {}))
           cnf model out"
proof -
  let ?D = "set (symbols_copy symbols) \<union> (if not_symbols symbols then abs ` set (concat cnf) else {})"
  obtain polarity new_symb pure_literals where
    sc: "scan_clauses (not_symbols symbols) cnf ([], symbols_copy symbols, symbols_copy symbols)
           = (polarity, new_symb, pure_literals)"
    by (metis prod_cases3)
  note d = scan_invD [OF pure_literal_scan [OF sc]]
  from res ne sc obtain model' where
    ap: "assign_pure pure_literals polarity model = Inr model'"
    and out: "out = (Some (filter (\<lambda>clause. \<not> list_ex (\<lambda>lit. \<bar>lit\<bar> \<in> set pure_literals) clause) cnf,
                     filter (\<lambda>v. v \<notin> set pure_literals) new_symb), model')"
    by (auto simp: pure_literal_def split: sum.splits)
  note a = assign_pure_Inr [OF ap]
  have pl: "set pure_literals = {v \<in> ?D. single_sign v cnf}"
    using d(3) by (simp add: single_sign_iff)
  have ns: "set new_symb = ?D" using d(4) by simp
  have val: "map_of model' v = Some (lit > 0)"
    if v: "v \<in> ?D" "single_sign v cnf" and lit: "lit \<in> set (occurrences v cnf)" for v lit
  proof -
    from v pl have vp: "v \<in> set pure_literals" by simp
    with a have "v \<in> dom (map_of polarity)" by blast
    then obtain b where b: "map_of polarity v = Some b" by blast
    from d(2) [OF b] obtain l where l: "l \<in> set (concat cnf)" "\<bar>l\<bar> = v" "(l > 0) = b"
      by blast
    from lit have lit': "lit \<in> set (concat cnf)" "\<bar>lit\<bar> = v"
      unfolding occurrences_def by auto
    from v(2) have "\<not> mixed v (concat cnf)" by (simp add: single_sign_iff)
    with l lit' have "(lit > 0) = (l > 0)" unfolding mixed_def by blast
    with l(3) b a vp show ?thesis by simp
  qed
  have keep: "map_of model' v = map_of model v" if "\<not> (v \<in> ?D \<and> single_sign v cnf)" for v
  proof -
    from that pl have "v \<notin> set pure_literals" by blast
    with a show ?thesis by simp
  qed
  have cl: "set (filter (\<lambda>clause. \<not> list_ex (\<lambda>lit. \<bar>lit\<bar> \<in> set pure_literals) clause) cnf)
          = {clause \<in> set cnf. \<not> (\<exists>lit\<in>set clause. \<bar>lit\<bar> \<in> ?D \<and> single_sign \<bar>lit\<bar> cnf)}"
    by (simp only: set_filter list_ex_iff pl mem_Collect_eq)
  have "set (filter (\<lambda>v. v \<notin> set pure_literals) new_symb) = set new_symb - set pure_literals"
    by auto
  also have "\<dots> = {v \<in> ?D. \<not> single_sign v cnf}"
    by (simp only: pl ns) blast
  finally have sy: "set (filter (\<lambda>v. v \<notin> set pure_literals) new_symb) = {v \<in> ?D. \<not> single_sign v cnf}" .
  show ?thesis
    unfolding pure_literal_post_def out
    apply (intro exI conjI)
    apply (rule refl)
    subgoal using val by (simp only: sy) blast
    subgoal by (rule sy)
    subgoal by (rule cl)
    subgoal using keep by blast
    done
qed

lemma pure_literal_total:
  assumes ne: "cnf \<noteq> []"
    and occ: "\<forall>v\<in>set (symbols_copy symbols). occurrences v cnf \<noteq> []"
  shows "\<exists>out. pure_literal cnf symbols model = Inr out"
proof -
  obtain polarity new_symb pure_literals where
    sc: "scan_clauses (not_symbols symbols) cnf ([], symbols_copy symbols, symbols_copy symbols)
           = (polarity, new_symb, pure_literals)"
    by (metis prod_cases3)
  note d = scan_invD [OF pure_literal_scan [OF sc]]
  from occ have "set (symbols_copy symbols) \<subseteq> abs ` set (concat cnf)"
    by (auto simp: occurrences_empty_iff)
  with d(3) have "set pure_literals \<subseteq> abs ` set (concat cnf)"
    by (auto split: if_splits)
  with d(1) have "set pure_literals \<subseteq> dom (map_of polarity)" by simp
  from assign_pure_total [OF this, of model] obtain model' where
    "assign_pure pure_literals polarity model = Inr model'" by blast
  with ne sc show ?thesis by (simp add: pure_literal_def)
qed

lemma symbols_copy_simps:
  "not_symbols symbols \<Longrightarrow> symbols_copy symbols = []"
  "syms \<noteq> [] \<Longrightarrow> symbols_copy (Some syms) = syms"
  "syms \<noteq> [] \<Longrightarrow> \<not> not_symbols (Some syms)"
  by (simp_all add: symbols_copy_def not_symbols_def)

text \<open>
  C7. The contract of \<^verbatim>\<open>pure_literal\<close>, as the code keeps it. An empty clause
  set gives \<^verbatim>\<open>(None, None)\<close> and leaves the model alone. Otherwise the variable
  domain is the given \<open>symbols\<close>, or the variables of the clause set when
  \<open>symbols\<close> is \<^verbatim>\<open>None\<close> or empty, and the elimination concerns the variables
  of that domain only: each of them with a single sign gets the value of its literals in
  the model and leaves the returned symbols, and every clause with a literal of such a
  variable is removed. With the domain derived from the clauses the call always returns;
  with given symbols it returns whenever each of them occurs in some clause.
\<close>

theorem pure_literal_contract:
  "pure_literal [] symbols model = Inr (None, model)
   \<and> (cnf \<noteq> [] \<and> not_symbols symbols \<longrightarrow>
        (\<exists>out. pure_literal cnf symbols model = Inr out
           \<and> pure_literal_post (abs ` set (concat cnf)) cnf model out))
   \<and> (cnf \<noteq> [] \<and> syms \<noteq> [] \<and> pure_literal cnf (Some syms) model = Inr out' \<longrightarrow>
        pure_literal_post (set syms) cnf model out')
   \<and> (cnf \<noteq> [] \<and> syms \<noteq> [] \<and> (\<forall>v\<in>set syms. occurrences v cnf \<noteq> []) \<longrightarrow>
        (\<exists>out. pure_literal cnf (Some syms) model = Inr out))"
proof (intro conjI impI)
  show "pure_literal [] symbols model = Inr (None, model)"
    by (simp add: pure_literal_def)
next
  assume h: "cnf \<noteq> [] \<and> not_symbols symbols"
  then have sc: "symbols_copy symbols = []" by (simp add: symbols_copy_simps)
  from h sc pure_literal_total [of cnf symbols model] obtain out where
    out: "pure_literal cnf symbols model = Inr out" by auto
  from pure_literal_char [OF _ out] h sc
  have "pure_literal_post (abs ` set (concat cnf)) cnf model out" by simp
  with out show "\<exists>out. pure_literal cnf symbols model = Inr out
           \<and> pure_literal_post (abs ` set (concat cnf)) cnf model out" by blast
next
  assume h: "cnf \<noteq> [] \<and> syms \<noteq> [] \<and> pure_literal cnf (Some syms) model = Inr out'"
  then have "pure_literal_post
           (set (symbols_copy (Some syms)) \<union> (if not_symbols (Some syms) then abs ` set (concat cnf) else {}))
           cnf model out'"
    by (intro pure_literal_char) auto
  with h show "pure_literal_post (set syms) cnf model out'"
    by (simp add: symbols_copy_simps)
next
  assume h: "cnf \<noteq> [] \<and> syms \<noteq> [] \<and> (\<forall>v\<in>set syms. occurrences v cnf \<noteq> [])"
  then show "\<exists>out. pure_literal cnf (Some syms) model = Inr out"
    by (intro pure_literal_total) (auto simp: symbols_copy_simps)
qed

text \<open>
  The contract at concrete inputs: a domain derived from the clauses, where variable 2 is
  positive throughout, and a given domain all of whose variables occur.
\<close>

theorem pure_literal_contract_witness:
  "[[1, 2], [-1, 3], [-3, 2]] \<noteq> ([] :: clauses) \<and> not_symbols None
   \<and> (\<exists>out. pure_literal [[1, 2], [-1, 3], [-3, 2]] None [] = Inr out
         \<and> pure_literal_post (abs ` set (concat [[1, 2], [-1, 3], [-3, 2]]))
              [[1, 2], [-1, 3], [-3, 2]] [] out)
   \<and> pure_literal [[1, 2], [-1, 3], [-3, 2]] None [] = Inr (Some ([[-1, 3]], [1, 3]), [(2, True)])
   \<and> [1, 3] \<noteq> ([] :: symbols)
   \<and> list_all (\<lambda>v. occurrences v [[-1, 3], [1, -3], [3]] \<noteq> []) [1, 3]
   \<and> pure_literal [[-1, 3], [1, -3], [3]] (Some [1, 3]) [(2, True)]
        = Inr (Some ([[-1, 3], [1, -3], [3]], [1, 3]), [(2, True)])
   \<and> pure_literal_post (set [1, 3]) [[-1, 3], [1, -3], [3]] [(2, True)]
        (Some ([[-1, 3], [1, -3], [3]], [1, 3]), [(2, True)])"
proof -
  let ?F = "[[1, 2], [-1, 3], [-3, 2]] :: clauses"
  let ?G = "[[-1, 3], [1, -3], [3]] :: clauses"
  have h1: "?F \<noteq> [] \<and> not_symbols None" by (simp add: not_symbols_def)
  have e1: "pure_literal ?F None [] = Inr (Some ([[-1, 3]], [1, 3]), [(2, True)])"
    by code_simp
  have e2: "pure_literal ?G (Some [1, 3]) [(2, True)] = Inr (Some (?G, [1, 3]), [(2, True)])"
    by code_simp
  have h3: "?G \<noteq> [] \<and> [1, 3] \<noteq> ([] :: symbols)
             \<and> pure_literal ?G (Some [1, 3]) [(2, True)] = Inr (Some (?G, [1, 3]), [(2, True)])"
    using e2 by simp
  have occ: "list_all (\<lambda>v. occurrences v ?G \<noteq> []) [1, 3]" by code_simp
  note c = pure_literal_contract [of None "[]" ?F "[1, 3]" "(Some (?G, [1, 3]), [(2, True)])"]
  note d = pure_literal_contract [of None "[(2, True)]" ?G "[1, 3]" "(Some (?G, [1, 3]), [(2, True)])"]
  from c h1 have p1: "\<exists>out. pure_literal ?F None [] = Inr out
         \<and> pure_literal_post (abs ` set (concat ?F)) ?F [] out" by blast
  from d h3 have p2: "pure_literal_post (set [1, 3]) ?G [(2, True)] (Some (?G, [1, 3]), [(2, True)])"
    by blast
  from h1 p1 e1 e2 occ p2 show ?thesis by simp
qed

text \<open>
  As stated, for every variable of single sign, the claim fails: with the symbols
  \<open>{2}\<close>, variable 1 is positive throughout and yet it is not assigned and its clause
  stays. And a symbol that occurs in no clause makes the call raise.
\<close>

theorem pure_literal_contract_counterexample:
  "pure_literal [[1], [2], [-2]] (Some [2]) [] = Inr (Some ([[1], [2], [-2]], [2]), [])
   \<and> single_sign 1 [[1], [2], [-2]]
   \<and> pure_literal [[1]] (Some [1, 2]) [] = Inl (KeyError 2)"
  by code_simp



section \<open>The loader\<close>


lemma clause_of_buffer_bound:
  "clause_of_buffer nb_lit buffer = Inr c \<Longrightarrow> l \<in> set c \<Longrightarrow> \<bar>l\<bar> \<le> nb_lit"
  by (auto simp: clause_of_buffer_def list_ex_iff not_less split: sum.splits if_splits)

lemma clause_of_buffer_invalid:
  "map_int (split (rstrip0 buffer)) = Inr c \<Longrightarrow> l \<in> set c \<Longrightarrow> \<bar>l\<bar> > nb_lit \<Longrightarrow>
   clause_of_buffer nb_lit buffer = Inl (ValueError ''Invalid clause'')"
  by (auto simp: clause_of_buffer_def list_ex_iff)

lemma read_clause_bound:
  "read_clause nb_clauses nb_lit buffer lines acc = Inr cnf \<Longrightarrow>
   (\<forall>c\<in>set acc. \<forall>l\<in>set c. \<bar>l\<bar> \<le> nb_lit) \<Longrightarrow>
   (\<forall>c\<in>set cnf. \<forall>l\<in>set c. \<bar>l\<bar> \<le> nb_lit)"
proof (induction lines arbitrary: buffer acc)
  case Nil
  then show ?case by simp
next
  case (Cons line rest)
  show ?case
  proof (cases "strip line = []")
    case True
    with Cons show ?thesis by simp
  next
    case nonblank: False
    show ?thesis
    proof (cases "endswith0 (strip line)")
      case False
      with nonblank Cons show ?thesis by simp
    next
      case True
      with nonblank Cons.prems(1) obtain c where
        c: "clause_of_buffer nb_lit (buffer @ strip line) = Inr c"
        by (auto split: sum.splits)
      have acc': "\<forall>c'\<in>set (set_add c acc). \<forall>l\<in>set c'. \<bar>l\<bar> \<le> nb_lit"
        using Cons.prems(2) clause_of_buffer_bound [OF c] by (auto simp: set_set_add)
      show ?thesis
      proof (cases "int (length (set_add c acc)) \<ge> nb_clauses")
        case True
        with nonblank \<open>endswith0 (strip line)\<close> c Cons.prems(1) have "cnf = set_add c acc"
          by simp
        with acc' show ?thesis by simp
      next
        case False
        with nonblank \<open>endswith0 (strip line)\<close> c Cons.prems(1)
        have "read_clause nb_clauses nb_lit [] rest (set_add c acc) = Inr cnf" by simp
        from Cons.IH [OF this acc'] show ?thesis .
      qed
    qed
  qed
qed


lemma parse_file_Inr:
  "parse_file file_lines = Inr ((cnf, nb_clauses, nb_lit), w) \<Longrightarrow>
   read_clause nb_clauses nb_lit [] (tl file_lines) [] = Inr cnf \<and> w = (int (length cnf) < nb_clauses)"
  by (auto simp: parse_file_def split: sum.splits prod.splits)




text \<open>
  C5. A line that ends in the character \<open>0\<close> ends the clause, also when that
  character is the last digit of a literal, and every trailing \<open>0\<close> character of the
  buffer is removed, not the last token: in a file that declares one clause over 20
  variables, the line \<open>10 20\<close> is read as the finished clause \<open>(10, 2)\<close>, and the
  line \<open>10\<close> of a clause that goes on in the next line as the finished clause
  \<open>(1)\<close>.
\<close>

theorem parse_file_trailing_zero_digit:
  "parse_file [''1 20'', ''10 20'', ''0''] = Inr (([[10, 2]], 1, 20), False)
   \<and> parse_file [''1 20'', ''10'', ''20 0''] = Inr (([[1]], 1, 20), False)"
  by code_simp

text \<open>
  C6. The loader checks the upper bound only. Every literal of every clause of a formula
  that \<^verbatim>\<open>parse_file\<close> returns has an absolute value of at most \<open>nb_lit\<close>. When
  the clause that a line finishes has a literal above the bound, the loader raises
  \<^verbatim>\<open>ValueError("Invalid clause")\<close> at that line, whatever follows and whatever was
  collected before, and the error leaves \<^verbatim>\<open>parse_file\<close> with no formula.
\<close>

theorem parse_file_literal_bound:
  "(parse_file file_lines = Inr ((cnf, nb_clauses, nb_lit), warned) \<longrightarrow>
      (\<forall>clause\<in>set cnf. \<forall>lit\<in>set clause. \<bar>lit\<bar> \<le> nb_lit))
   \<and> (strip line \<noteq> [] \<and> endswith0 (strip line)
        \<and> map_int (split (rstrip0 (buffer @ strip line))) = Inr current_clause
        \<and> (\<exists>lit\<in>set current_clause. \<bar>lit\<bar> > max_var) \<longrightarrow>
      read_clause declared max_var buffer (line # rest) collected
        = Inl (ValueError ''Invalid clause''))
   \<and> (read_header header = Inr (declared, max_var)
        \<and> read_clause declared max_var [] body [] = Inl e \<longrightarrow>
      parse_file (header # body) = Inl e)"
proof (intro conjI impI)
  assume "parse_file file_lines = Inr ((cnf, nb_clauses, nb_lit), warned)"
  then have "read_clause nb_clauses nb_lit [] (tl file_lines) [] = Inr cnf"
    by (simp add: parse_file_Inr)
  from read_clause_bound [OF this]
  show "\<forall>clause\<in>set cnf. \<forall>lit\<in>set clause. \<bar>lit\<bar> \<le> nb_lit" by simp
next
  assume h: "strip line \<noteq> [] \<and> endswith0 (strip line)
        \<and> map_int (split (rstrip0 (buffer @ strip line))) = Inr current_clause
        \<and> (\<exists>lit\<in>set current_clause. \<bar>lit\<bar> > max_var)"
  then obtain lit where "lit \<in> set current_clause" "\<bar>lit\<bar> > max_var" by blast
  with h have "clause_of_buffer max_var (buffer @ strip line) = Inl (ValueError ''Invalid clause'')"
    by (intro clause_of_buffer_invalid [of _ current_clause lit]) simp_all
  with h show "read_clause declared max_var buffer (line # rest) collected
        = Inl (ValueError ''Invalid clause'')" by simp
next
  assume "read_header header = Inr (declared, max_var)
        \<and> read_clause declared max_var [] body [] = Inl e"
  then show "parse_file (header # body) = Inl e"
    by (simp add: parse_file_def)
qed

text \<open>
  The three parts at concrete files: a file that loads, a line \<open>1 3 0\<close> under the bound
  2, and the file that holds that line.
\<close>

theorem parse_file_literal_bound_witness:
  "parse_file [''2 2'', ''1 -2 0'', ''2'', ''-1 0''] = Inr (([[1, -2], [2, -1]], 2, 2), False)
   \<and> list_all (\<lambda>clause. list_all (\<lambda>lit. \<bar>lit\<bar> \<le> 2) clause) [[1, -2], [2, -1 :: int]]
   \<and> strip ''1 3 0'' \<noteq> [] \<and> endswith0 (strip ''1 3 0'')
   \<and> map_int (split (rstrip0 ([] @ strip ''1 3 0''))) = Inr [1, 3]
   \<and> list_ex (\<lambda>lit. \<bar>lit\<bar> > 2) [1, 3 :: int]
   \<and> read_clause 2 2 [] [''1 3 0'', ''1 0''] [] = Inl (ValueError ''Invalid clause'')
   \<and> read_header ''2 2'' = Inr (2, 2)
   \<and> parse_file [''2 2'', ''1 3 0'', ''1 0''] = Inl (ValueError ''Invalid clause'')"
proof -
  note t = parse_file_literal_bound
    [of "[''2 2'', ''1 -2 0'', ''2'', ''-1 0'']" "[[1, -2], [2, -1]]" 2 2 False
        "''1 3 0''" "[]" "[1, 3]" 2 2 "[''1 0'']" "[]" "''2 2''" "[''1 3 0'', ''1 0'']"
        "ValueError ''Invalid clause''"]
  have h1: "parse_file [''2 2'', ''1 -2 0'', ''2'', ''-1 0'']
              = Inr (([[1, -2], [2, -1]], 2, 2), False)" by code_simp
  have h2: "strip ''1 3 0'' \<noteq> [] \<and> endswith0 (strip ''1 3 0'')
        \<and> map_int (split (rstrip0 ([] @ strip ''1 3 0''))) = Inr [1, 3]
        \<and> (\<exists>lit\<in>set [1, 3 :: int]. \<bar>lit\<bar> > 2)" by code_simp
  have h3: "read_header ''2 2'' = Inr (2, 2)" by code_simp
  from t h1 have c1: "\<forall>clause\<in>set [[1, -2], [2, -1 :: int]]. \<forall>lit\<in>set clause. \<bar>lit\<bar> \<le> 2"
    by blast
  from t h2 have c2: "read_clause 2 2 [] [''1 3 0'', ''1 0''] []
                        = Inl (ValueError ''Invalid clause'')" by blast
  from t h3 c2 have c3: "parse_file [''2 2'', ''1 3 0'', ''1 0''] = Inl (ValueError ''Invalid clause'')"
    by blast
  from h1 c1 h2 c2 h3 c3 show ?thesis by (simp add: list_all_iff list_ex_iff)
qed

text \<open>
  As stated, with the lower bound, the claim fails: a token \<open>0\<close> that is not the end
  of its line is a literal like any other, and the clause \<open>(1, 0, 2)\<close> is loaded.
\<close>

theorem parse_file_literal_bound_counterexample:
  "parse_file [''1 2'', ''1 0 2 0''] = Inr (([[1, 0, 2]], 1, 2), False)"
  by code_simp




section \<open>The search ends\<close>

text \<open>
  Each recursive call of \<^verbatim>\<open>DPLL\<close> has fewer open variables, or as many and fewer
  clauses: unit propagation removes a clause and assigns a variable; a branch assigns a
  symbol that had no value, and pure-literal elimination before it only takes symbols
  away and only adds to the model. The call on the false branch starts from the model as
  the call on the true branch left it, so the proof needs that a call never takes a key
  out of the model.
\<close>

lemma unit_loop_False:
  "unit_loop todo clauses model = (False, c1, m1) \<Longrightarrow> c1 = clauses \<and> m1 = model"
  by (induction todo) (auto split: option.splits)

lemma unit_loop_True:
  "unit_loop todo clauses model = (True, c1, m1) \<Longrightarrow> set todo \<subseteq> set clauses \<Longrightarrow>
   \<exists>clause k b. clause \<in> set clauses \<and> c1 = remove1 clause clauses \<and> m1 = AList.update k b model"
  by (induction todo) (auto split: option.splits)

lemma dom_update: "dom (map_of (AList.update k b m)) = insert k (dom (map_of m))"
  by (simp add: update_conv')

lemma finite_search_domain: "finite (search_domain c s)"
  by (simp add: search_domain_def)

lemma search_domain_remove1: "search_domain (remove1 clause c) s \<subseteq> search_domain c s"
proof -
  have "set (remove1 clause c) \<subseteq> set c" by (rule set_remove1_subset)
  then show ?thesis unfolding search_domain_def by auto
qed

lemma open_vars_mono:
  assumes "search_domain c' s' \<subseteq> search_domain c s" "dom (map_of m) \<subseteq> dom (map_of m')"
  shows "open_vars (c', s', m') \<le> open_vars (c, s, m)"
  unfolding open_vars_def using assms
  by (auto intro!: card_mono finite_Diff finite_search_domain)

lemma remove_unit_clauses_True:
  assumes "remove_unit_clauses clauses model = (True, c1, m1)"
  shows "open_vars (c1, s, m1) \<le> open_vars (clauses, s, model) \<and> length c1 < length clauses"
proof -
  from unit_loop_True [OF assms [unfolded remove_unit_clauses_def]] obtain clause k b where
    c: "clause \<in> set clauses" "c1 = remove1 clause clauses" "m1 = AList.update k b model"
    by auto
  have "open_vars (c1, s, m1) \<le> open_vars (clauses, s, model)"
    unfolding c by (rule open_vars_mono [OF search_domain_remove1]) (auto simp: dom_update)
  moreover from c(1) have "0 < length clauses" by (cases clauses) auto
  with c have "length c1 < length clauses"
    by (simp add: length_remove1)
  ultimately show ?thesis by simp
qed

lemma pure_literal_dom:
  assumes "pure_literal cnf symbols model = Inr (r, m2)"
  shows "dom (map_of model) \<subseteq> dom (map_of m2)"
proof (cases "cnf = []")
  case True
  with assms show ?thesis by (simp add: pure_literal_def)
next
  case False
  obtain polarity new_symb pure_literals where
    sc: "scan_clauses (not_symbols symbols) cnf ([], symbols_copy symbols, symbols_copy symbols)
           = (polarity, new_symb, pure_literals)"
    by (metis prod_cases3)
  from assms False sc have "assign_pure pure_literals polarity model = Inr m2"
    by (auto simp: pure_literal_def split: sum.splits)
  from assign_pure_Inr [OF this] show ?thesis
    by (auto simp: domIff subset_iff)
qed

lemma pure_literal_symbols:
  assumes "cnf \<noteq> []" "pure_literal cnf symbols model = Inr (Some (c2, s2), m2)"
  shows "set s2 \<subseteq> search_domain cnf symbols"
proof -
  have D: "set (symbols_copy symbols) \<union> (if not_symbols symbols then abs ` set (concat cnf) else {})
         = search_domain cnf symbols"
    by (simp add: search_domain_def symbols_copy_def)
  from pure_literal_char [OF assms] show ?thesis
    unfolding pure_literal_post_def D by auto
qed

lemma branch_decreases:
  assumes ne: "cnf \<noteq> []"
    and pl: "pure_literal cnf symbols model = Inr (Some (c2, s2), m2)"
    and s: "filter (\<lambda>s. map_of m2 s = None) s2 = s # rest"
    and m': "dom (map_of m2) \<subseteq> dom (map_of m')" "s \<in> dom (map_of m')"
  shows "open_vars (c', Some s2, m') < open_vars (cnf, symbols, model)"
proof -
  from s have "s \<in> set (filter (\<lambda>s. map_of m2 s = None) s2)" by simp
  then have s2: "s \<in> set s2" "s \<notin> dom (map_of m2)" by (auto simp: domIff)
  then have sd: "search_domain c' (Some s2) = set s2"
    by (auto simp: search_domain_def not_symbols_def symbols_copy_def)
  note sub = pure_literal_symbols [OF ne pl]
  note dm = pure_literal_dom [OF pl]
  have psub: "set s2 - dom (map_of m') \<subset> search_domain cnf symbols - dom (map_of model)"
    using s2 sub dm m' by blast
  have fin: "finite (search_domain cnf symbols - dom (map_of model))"
    by (simp add: finite_search_domain)
  from psubset_card_mono [OF fin psub] show ?thesis
    by (simp add: open_vars_def sd)
qed

lemma DPLL_dom_grows:
  assumes "DPLL_dom (clauses, symbols, model)"
  shows "DPLL clauses symbols model = Inr (r, c', m') \<Longrightarrow> dom (map_of model) \<subseteq> dom (map_of m')"
  using assms
proof (induction clauses symbols model arbitrary: r c' m' rule: DPLL.pinduct)
  case (1 clauses symbols model)
  note eq = DPLL.psimps [OF "1.hyps"]
  show ?case
  proof (cases "clauses = [] \<or> (model \<noteq> [] \<and> list_all (\<lambda>c. list_ex (lit_satisfied model) c) clauses)
                \<or> (case symbols of None \<Rightarrow> False | Some syms \<Rightarrow> length model = length syms)")
    case True
    with "1.prems" eq have "m' = model" by (auto split: if_splits)
    then show ?thesis by simp
  next
    case False
    then have c1: "clauses \<noteq> []"
      and c2: "\<not> (model \<noteq> [] \<and> list_all (\<lambda>c. list_ex (lit_satisfied model) c) clauses)"
      and c3: "\<not> (case symbols of None \<Rightarrow> False | Some syms \<Rightarrow> length model = length syms)"
      by auto
    obtain u cl1 m1 where ru: "remove_unit_clauses clauses model = (u, cl1, m1)"
      by (metis prod_cases3)
    from c1 c2 c3 have f: "(clauses = []) = False"
      "(model \<noteq> [] \<and> list_all (\<lambda>c. list_ex (lit_satisfied model) c) clauses) = False"
      "(case symbols of None \<Rightarrow> False | Some syms \<Rightarrow> length model = length syms) = False"
      by blast+
    note eq = eq [unfolded f if_False ru]
    show ?thesis
    proof (cases u)
      case True
      then have uT: "u = True" by simp
      with eq "1.prems" have rec: "DPLL cl1 symbols m1 = Inr (r, c', m')"
        by simp
      from "1.IH"(1) [OF c1 c2 c3 ru [symmetric] uT refl rec]
      have "dom (map_of m1) \<subseteq> dom (map_of m')" .
      moreover have "dom (map_of model) \<subseteq> dom (map_of m1)"
      proof -
        from unit_loop_True [OF ru [unfolded remove_unit_clauses_def uT]]
        obtain k b where "m1 = AList.update k b model" by auto
        then show ?thesis by (simp add: dom_update subset_insertI)
      qed
      ultimately show ?thesis by blast
    next
      case False
      then have uF: "u = False" by simp
      from unit_loop_False [OF ru [unfolded remove_unit_clauses_def uF]]
      have same: "cl1 = clauses" "m1 = model" by auto
      show ?thesis
      proof (cases "pure_literal cl1 symbols m1")
        case (Inl e)
        with uF eq "1.prems" show ?thesis by simp
      next
        case (Inr b)
        obtain ro m2 where b: "b = (ro, m2)" by (cases b) auto
        note dm = pure_literal_dom [OF Inr [unfolded b same]]
        show ?thesis
        proof (cases ro)
          case None
          with Inr b uF eq "1.prems" have "m' = m2" by simp
          with dm show ?thesis by simp
        next
          case (Some x2)
          obtain cl2 s2 where x2: "x2 = (cl2, s2)" by (cases x2) auto
          show ?thesis
          proof (cases "cl2 = []")
            case True
            with Some x2 Inr b uF eq "1.prems" have "m' = m2"
              by simp
            with dm show ?thesis by simp
          next
            case ne2: False
            show ?thesis
            proof (cases "filter (\<lambda>s. map_of m2 s = None) s2")
              case Nil
              with ne2 Some x2 Inr b uF eq "1.prems" have "m' = m2"
                by simp
              with dm show ?thesis by simp
            next
              case (Cons s rest)
              show ?thesis
              proof (cases "DPLL cl2 (Some s2) (AList.update s True m2)")
                case (Inl e)
                with Cons ne2 Some x2 Inr b uF eq "1.prems" show ?thesis
                  by simp
              next
                case first: (Inr ba)
                obtain r1 cl3 m3 where ba: "ba = (r1, cl3, m3)" by (metis prod_cases3)
                from "1.IH"(2) [OF c1 c2 c3 ru [symmetric] uF refl Inr b [symmetric] Some
                                   x2 [symmetric] ne2 Cons first [unfolded ba]]
                have d3: "dom (map_of (AList.update s True m2)) \<subseteq> dom (map_of m3)" .
                with dm have d3': "dom (map_of model) \<subseteq> dom (map_of m3)"
                  by (auto simp: dom_update)
                show ?thesis
                proof (cases r1)
                  case (Tuple bb mm)
                  with first ba Cons ne2 Some x2 Inr b uF eq "1.prems"
                  have "m' = m3" by simp
                  with d3' show ?thesis by simp
                next
                  case NoneValue
                  show ?thesis
                  proof (cases "DPLL cl3 (Some s2) (AList.update s False m3)")
                    case (Inl e)
                    with NoneValue first ba Cons ne2 Some x2 Inr b uF eq "1.prems"
                    show ?thesis by simp
                  next
                    case second: (Inr bc)
                    obtain r2 cl4 m4 where bc: "bc = (r2, cl4, m4)" by (metis prod_cases3)
                    from "1.IH"(3) [OF c1 c2 c3 ru [symmetric] uF refl Inr b [symmetric] Some
                                   x2 [symmetric] ne2 Cons first ba [symmetric] NoneValue refl
                                   second [unfolded bc]]
                    have d4: "dom (map_of (AList.update s False m3)) \<subseteq> dom (map_of m4)" .
                    from second bc NoneValue first ba Cons ne2 Some x2 Inr b uF eq "1.prems"
                    have "m' = m4" by simp
                    with d4 d3' show ?thesis by (auto simp: dom_update)
                  qed
                qed
              qed
            qed
          qed
        qed
      qed
    qed
  qed
qed

termination DPLL
proof (relation "measures [open_vars, \<lambda>(c, s, m). length c]", goal_cases)
  case 1
  show ?case by simp
next
  case (2 clauses symbols model x y xa ya)
  then have "remove_unit_clauses clauses model = (True, xa, ya)" by simp
  from remove_unit_clauses_True [OF this, of symbols] show ?case by auto
next
  case (3 clauses symbols model x y xa ya b xb yb x2 xc yc x21 x22)
  then have ru: "remove_unit_clauses clauses model = (False, xa, ya)" by simp
  from unit_loop_False [OF ru [unfolded remove_unit_clauses_def]]
  have same: "xa = clauses" "ya = model" by auto
  from 3 same have pl: "pure_literal clauses symbols model = Inr (Some (xc, yc), yb)" by simp
  have "open_vars (xc, Some yc, AList.update x21 True yb) < open_vars (clauses, symbols, model)"
    by (rule branch_decreases [OF 3(1) pl 3(12)]) (auto simp: dom_update)
  then show ?case by simp
next
  case (4 clauses symbols model x y xa ya b xb yb x2 xc yc x21 x22 ba xd yd xe ye)
  then have ru: "remove_unit_clauses clauses model = (False, xa, ya)" by simp
  from unit_loop_False [OF ru [unfolded remove_unit_clauses_def]]
  have same: "xa = clauses" "ya = model" by auto
  from 4 same have pl: "pure_literal clauses symbols model = Inr (Some (xc, yc), yb)" by simp
  from 4 have first: "DPLL xc (Some yc) (AList.update x21 True yb) = Inr (NoneValue, xe, ye)"
    by simp
  from DPLL_dom_grows [OF 4(17) first]
  have grow: "dom (map_of (AList.update x21 True yb)) \<subseteq> dom (map_of ye)" .
  have "open_vars (xe, Some yc, AList.update x21 False ye) < open_vars (clauses, symbols, model)"
    by (rule branch_decreases [OF 4(1) pl 4(12)]) (use grow in \<open>auto simp: dom_update\<close>)
  then show ?case by simp
qed

declare DPLL.simps [simp del]

section \<open>The search on small formulas\<close>

text \<open>
  C1. The formula of the two unit clauses \<open>{1}\<close> and \<open>{-1}\<close> has no model, and the
  search is expected to report it unsatisfiable. It does not: unit propagation assigns
  variable 1 from the first clause it meets and removes that clause; the other clause is
  left with its only variable assigned, so it is no unit; pure-literal elimination then
  finds variable 1 pure in what is left, overwrites its value and removes the clause. The
  call returns \<open>(True, model)\<close> in both orders of the two clauses.
\<close>

theorem DPLL_contradictory_pair:
  "DPLL [[1], [-1]] None [] =
     Inr (Tuple True (Some [(1, False)]), [[-1]], [(1, False)])
   \<and> DPLL [[-1], [1]] None [] =
     Inr (Tuple True (Some [(1, True)]), [[1]], [(1, True)])"
  by code_simp

text \<open>
  C2. A model returned with \<open>True\<close> need not satisfy the formula. The formula
  \<open>{-1, 2}, {1, -2}, {-1, -2}\<close> is satisfied by setting both variables to false (last
  line). The search sets the first variable it branches on to true, assigns the other by
  unit propagation, meets a falsified clause, and still returns \<open>True\<close> with that
  model. The first two lines are one such run; the next two say that in whatever order
  the clauses are visited, and whichever of the two variables comes first, the returned
  model leaves a clause of the formula without a true literal.
\<close>

theorem DPLL_returned_model_falsifies_clause:
  "DPLL [[-1, 2], [1, -2], [-1, -2]] None [] =
     Inr (Tuple True (Some [(1, True), (2, True)]), [[-1, 2], [1, -2], [-1, -2]],
          [(1, True), (2, True)])
   \<and> \<not> list_ex (lit_satisfied [(1, True), (2, True)]) [-1, -2]
   \<and> list_all returns_falsified_model (arrangements [[-1, 2], [1, -2], [-1, -2]])
   \<and> list_all returns_falsified_model (arrangements [[2, -1], [-2, 1], [-2, -1]])
   \<and> list_all (\<lambda>c. list_ex (lit_satisfied [(1, False), (2, False)]) c)
        [[-1, 2], [1, -2], [-1, -2]]"
  by code_simp

text \<open>
  C3. The branching step does not look at what the recursive call reports. Line 134 tests
  the returned value itself, and a pair is true in Python whatever it holds. So at every
  branch, on the first unassigned symbol \<open>s\<close>: when the call on the true branch returns
  a pair, \<open>(False, model)\<close> included, \<^verbatim>\<open>DPLL\<close> returns \<open>(True, model)\<close> and
  the false branch is never tried; the false branch is tried only when the call on the
  true branch returns \<^verbatim>\<open>None\<close>, and then its result is returned.
\<close>

theorem DPLL_branch_step:
  assumes "clauses \<noteq> []"
    and "\<not> (model \<noteq> [] \<and> list_all (\<lambda>c. list_ex (lit_satisfied model) c) clauses)"
    and "\<not> (case symbols of None \<Rightarrow> False | Some syms \<Rightarrow> length model = length syms)"
    and "remove_unit_clauses clauses model = (False, clauses1, model1)"
    and "pure_literal clauses1 symbols model1 = Inr (Some (clauses2, symbols2), model2)"
    and "clauses2 \<noteq> []"
    and "filter (\<lambda>s. map_of model2 s = None) symbols2 = s # unassigned"
  shows "(DPLL clauses2 (Some symbols2) (AList.update s True model2)
            = Inr (Tuple b m, clauses3, model3) \<longrightarrow>
          DPLL clauses symbols model = Inr (Tuple True (Some model3), clauses1, model3))
       \<and> (DPLL clauses2 (Some symbols2) (AList.update s True model2)
            = Inr (NoneValue, clauses3, model3)
          \<and> DPLL clauses3 (Some symbols2) (AList.update s False model3)
            = Inr (r, clauses4, model4) \<longrightarrow>
          DPLL clauses symbols model = Inr (r, clauses1, model4))"
proof -
  from assms(2)
  have c2: "(model \<noteq> [] \<and> list_all (\<lambda>c. list_ex (lit_satisfied model) c) clauses) = False"
    by blast
  from assms(3)
  have c3: "(case symbols of None \<Rightarrow> False | Some syms \<Rightarrow> length model = length syms) = False"
    by blast
  show ?thesis
    by (subst (1 2) DPLL.simps [of clauses symbols model]) (simp add: c2 c3 assms(1,4,5,6,7))
qed

text \<open>
  The step at two formulas. On the formula of C2 the call on the true branch of variable 1
  reports \<open>False\<close>, and the call above it returns \<open>True\<close>. On
  \<open>{1, 2}, {-1, -2}, {-1, 2}, {1, -2}, {5, 6}\<close> the call on the true branch returns
  \<^verbatim>\<open>None\<close>, the false branch is tried on the clauses the first call left, and its
  result (\<^verbatim>\<open>None\<close> again) is returned.
\<close>

theorem DPLL_branch_step_witness:
  "DPLL [[-1, 2], [1, -2], [-1, -2]] (Some [1, 2]) (AList.update 1 True [])
     = Inr (Tuple False (Some [(1, True), (2, True)]), [[1, -2], [-1, -2]],
            [(1, True), (2, True)])
   \<and> DPLL [[-1, 2], [1, -2], [-1, -2]] None []
     = Inr (Tuple True (Some [(1, True), (2, True)]), [[-1, 2], [1, -2], [-1, -2]],
            [(1, True), (2, True)])
   \<and> DPLL [[1, 2], [-1, -2], [-1, 2], [1, -2]] (Some [1, 2])
        (AList.update 1 True [(5, True), (6, True)])
     = Inr (NoneValue, [[-1, -2], [-1, 2], [1, -2]], [(5, True), (6, True), (1, True), (2, True)])
   \<and> DPLL [[-1, -2], [-1, 2], [1, -2]] (Some [1, 2])
        (AList.update 1 False [(5, True), (6, True), (1, True), (2, True)])
     = Inr (NoneValue, [[-1, -2], [-1, 2], [1, -2]], [(5, True), (6, True), (1, False), (2, True)])
   \<and> DPLL [[1, 2], [-1, -2], [-1, 2], [1, -2], [5, 6]] None []
     = Inr (NoneValue, [[1, 2], [-1, -2], [-1, 2], [1, -2], [5, 6]],
            [(5, True), (6, True), (1, False), (2, True)])"
proof -
  let ?F = "[[-1, 2], [1, -2], [-1, -2]] :: clauses"
  have f1: "?F \<noteq> []" by simp
  have f2: "\<not> (([]::model) \<noteq> [] \<and> list_all (\<lambda>c. list_ex (lit_satisfied []) c) ?F)" by simp
  have f3: "\<not> (case None :: symbols option of None \<Rightarrow> False
                | Some syms \<Rightarrow> length ([]::model) = length syms)"
    by simp
  have f4: "remove_unit_clauses ?F [] = (False, ?F, [])" by code_simp
  have f5: "pure_literal ?F None [] = Inr (Some (?F, [1, 2]), [])" by code_simp
  have f7: "filter (\<lambda>s. map_of ([]::model) s = None) [1, 2] = 1 # [2]" by simp
  have f8: "DPLL ?F (Some [1, 2]) (AList.update 1 True [])
     = Inr (Tuple False (Some [(1, True), (2, True)]), [[1, -2], [-1, -2]],
            [(1, True), (2, True)])" by code_simp
  from DPLL_branch_step [OF f1 f2 f3 f4 f5 f1 f7] f8
  have first: "DPLL ?F None []
     = Inr (Tuple True (Some [(1, True), (2, True)]), ?F, [(1, True), (2, True)])"
    by blast
  let ?G = "[[1, 2], [-1, -2], [-1, 2], [1, -2], [5, 6]] :: clauses"
  let ?G2 = "[[1, 2], [-1, -2], [-1, 2], [1, -2]] :: clauses"
  let ?G3 = "[[-1, -2], [-1, 2], [1, -2]] :: clauses"
  let ?m2 = "[(5, True), (6, True)] :: model"
  let ?m3 = "[(5, True), (6, True), (1, True), (2, True)] :: model"
  let ?m4 = "[(5, True), (6, True), (1, False), (2, True)] :: model"
  have g1: "?G \<noteq> []" by simp
  have g2: "\<not> (([]::model) \<noteq> [] \<and> list_all (\<lambda>c. list_ex (lit_satisfied []) c) ?G)" by simp
  have g4: "remove_unit_clauses ?G [] = (False, ?G, [])" by code_simp
  have g5: "pure_literal ?G None [] = Inr (Some (?G2, [1, 2]), ?m2)" by code_simp
  have g6: "?G2 \<noteq> []" by simp
  have g7: "filter (\<lambda>s. map_of ?m2 s = None) [1, 2] = 1 # [2]" by simp
  have g8: "DPLL ?G2 (Some [1, 2]) (AList.update 1 True ?m2) = Inr (NoneValue, ?G3, ?m3)"
    by code_simp
  have g9: "DPLL ?G3 (Some [1, 2]) (AList.update 1 False ?m3) = Inr (NoneValue, ?G3, ?m4)"
    by code_simp
  from DPLL_branch_step [OF g1 g2 f3 g4 g5 g6 g7] g8 g9
  have second: "DPLL ?G None [] = Inr (NoneValue, ?G, ?m4)"
    by blast
  from f8 first g8 g9 second show ?thesis by simp
qed

text \<open>
  C4. Every call of \<^verbatim>\<open>DPLL\<close> ends (the termination proof above), but not
  always in one of the two verdicts. On
  \<open>{1, 2}, {-1, 2}, {3, 4, 5}, {-3, -4, -5}\<close> the first elimination removes the two
  clauses of the pure variable 2, and with them every occurrence of variable 1, which
  stays in the symbols; after the branch the second elimination looks variable 1 up in
  \<open>polarity\<close> and raises \<^verbatim>\<open>KeyError\<close>, in every order of the clauses (second
  line). On the formula of the empty clause alone nothing is a unit, nothing is pure and
  no symbol is left to branch on: the function falls off its end and returns
  \<^verbatim>\<open>None\<close>.
\<close>

theorem DPLL_raises_or_returns_nothing:
  "DPLL [[1, 2], [-1, 2], [3, 4, 5], [-3, -4, -5]] None [] = Inl (KeyError 1)
   \<and> list_all (\<lambda>cnf. DPLL cnf None [] = Inl (KeyError 1))
        (arrangements [[1, 2], [-1, 2], [3, 4, 5], [-3, -4, -5]])
   \<and> DPLL [[]] None [] = Inr (NoneValue, [[]], [])"
  by code_simp

text \<open>
  C9. A second top-level call does not start from an empty model: the default dict keeps
  what the first call wrote. The first call on \<open>{1}, {-1}\<close> returns \<open>(True, model)\<close>
  and leaves variable 1 assigned; the second call on the same formula (loaded again)
  finds variable 1 assigned, no unit, nothing pure and no symbol to branch on, and
  returns \<^verbatim>\<open>None\<close>.
\<close>

theorem DPLL_default_model_leaks:
  "DPLL_default [[1], [-1]] [] =
     Inr (Tuple True (Some [(1, False)]), [(1, False)])
   \<and> DPLL_default [[1], [-1]] [(1, False)] = Inr (NoneValue, [(1, False)])
   \<and> DPLL_default [[-1], [1]] [] =
     Inr (Tuple True (Some [(1, True)]), [(1, True)])
   \<and> DPLL_default [[-1], [1]] [(1, True)] = Inr (NoneValue, [(1, True)])"
  by code_simp


end
